theory Spec2Isabelle
  imports Main
begin

section \<open>Data model of the download queue (Parser.py)\<close>

text \<open>
  The program is a single window object (class \<open>MainWindow\<close>) whose methods run on
  the GUI thread, and worker objects (class \<open>DownloadWorker\<close>) whose \<open>run\<close>
  method reports to the window through signals. The model passes the window's state
  explicitly; a signal is a value, and the slot connected to it is a function on the state.

  An exception is an instance of Python's \<open>Exception\<close> class, the class that
  every \<open>except Exception\<close> clause of the source catches; it carries its text.
\<close>

datatype exn = Exn (exn_str: string)

text \<open>
  The console holds the lines passed to \<open>append_console\<close>. Most of them are
  formatted from a fixed template and some values; a line is modelled by its template
  (one constructor each) and the values formatted into it.
\<close>

datatype log_line =
    LogDebugAdded string          \<comment> \<open>debug line of \<open>_add_links\<close>: the full link added\<close>
  | LogAdded nat                  \<comment> \<open>number of links added by one \<open>_add_links\<close> call\<close>
  | LogRemoved string             \<comment> \<open>url removed from the queue\<close>
  | LogLaunch nat int             \<comment> \<open>batch launch: number of queued urls, worker limit\<close>
  | LogStopped                    \<comment> \<open>download stopped by the user\<close>
  | LogRemoveError string exn     \<comment> \<open>deleting the file raised\<close>
  | LogRemovedFiles nat           \<comment> \<open>number of files deleted by the reset\<close>
  | LogStartingDownload string    \<comment> \<open>"Starting download: url"\<close>
  | LogMissingYtDlp               \<comment> \<open>"yt-dlp is not available. Skipping."\<close>
  | LogDownloading string int string  \<comment> \<open>"[url] downloading: percent% ETA=eta"\<close>
  | LogFinished string "string option"  \<comment> \<open>"[url] finished -> filename"\<close>
  | LogHookError exn              \<comment> \<open>"[hook error] e"\<close>
  | LogErrorDownloading string exn  \<comment> \<open>"Error downloading url: e" and the traceback\<close>
  | LogYtDlpInfo string           \<comment> \<open>"[yt-dlp] msg"\<close>
  | LogYtDlpWarning string        \<comment> \<open>"[WARNING] msg"\<close>
  | LogYtDlpError string          \<comment> \<open>"[ERROR] msg"\<close>

text \<open>
  A queue entry is a \<open>QListWidgetItem\<close>: its display text, the dictionary stored
  under \<open>Qt.UserRole\<close> (keys \<open>url\<close>, \<open>status\<close>, \<open>progress\<close>,
  \<open>filepath\<close>). The status is the string the source stores.
\<close>

datatype item_text =
    TextUrl string                \<comment> \<open>the link, as set by \<open>QListWidgetItem(link)\<close>\<close>
  | TextProgress string int       \<comment> \<open>url and percent, set by \<open>_on_item_progress\<close>\<close>
  | TextStatus string string      \<comment> \<open>url and status, set by \<open>_set_item_status\<close>\<close>

record item =
  item_text :: item_text
  url :: string
  status :: string
  progress :: int
  filepath :: string

text \<open>A \<open>DownloadWorker\<close> with the values it captures when it is created.\<close>

record worker =
  w_url :: string
  w_out_dir :: string
  w_format :: string
  w_outtmpl :: string

text \<open>
  A \<open>QThreadPool\<close> object, as far as the source touches it: the maximum thread
  count it was given and the workers handed to its \<open>start\<close>, in order.
\<close>

record pool =
  max_thread_count :: int
  submitted :: "worker list"

record progress_bar =
  pb_value :: int
  pb_maximum :: int

text \<open>
  The window. \<open>threadpool\<close> is the pool object that \<open>self.threadpool\<close>
  refers to; \<open>detached_pools\<close> are the pool objects it referred to before and that
  \<open>stop_downloads\<close> replaced (the source only rebinds the attribute, the objects
  themselves are not touched). \<open>yt_dlp_available\<close> is the module's global flag
  \<open>YT_DLP_AVAILABLE\<close>.
\<close>

record main_window =
  queue_list :: "item list"
  queued_urls :: "string list"
  downloaded_files :: "string list"
  running_count :: int
  console :: "log_line list"
  global_progress :: progress_bar
  download_dir :: string
  threads_spin :: int
  threadpool :: pool
  detached_pools :: "pool list"
  start_btn_enabled :: bool
  stop_btn_enabled :: bool
  install_btn_enabled :: bool
  yt_dlp_available :: bool

section \<open>Adding links\<close>

definition new_item :: "string \<Rightarrow> item" where
  "new_item link =
     \<lparr>item_text = TextUrl link, url = link, status = ''queued'', progress = 0,
      filepath = []\<rparr>"

text \<open>
  The loop of \<open>_add_links\<close>, with the local counter \<open>added\<close>: a link that
  is already in \<open>queued_urls\<close> is skipped.
\<close>

fun add_links_loop :: "string list \<Rightarrow> nat \<Rightarrow> main_window \<Rightarrow> nat \<times> main_window" where
  "add_links_loop [] added s = (added, s)"
| "add_links_loop (link # links) added s =
     (if link \<in> set (queued_urls s) then add_links_loop links added s
      else add_links_loop links (added + 1)
             (s\<lparr>queue_list := queue_list s @ [new_item link],
                queued_urls := queued_urls s @ [link],
                console := console s @ [LogDebugAdded link]\<rparr>))"

definition add_links :: "string list \<Rightarrow> main_window \<Rightarrow> main_window" where
  "add_links links s =
     (case add_links_loop links 0 s of
        (added, s') \<Rightarrow> s'\<lparr>console := console s' @ [LogAdded added]\<rparr>)"

text \<open>
  The links of a submission that are not yet in the url list \<open>qu\<close>, each once, in the
  order of their first occurrence.
\<close>

definition fresh_links :: "string list \<Rightarrow> string list \<Rightarrow> string list" where
  "fresh_links qu links = rev (remdups (rev (filter (\<lambda>l. l \<notin> set qu) links)))"

text \<open>The queue and the url list are in sync: same urls, same order, no duplicate.\<close>

definition in_sync :: "main_window \<Rightarrow> bool" where
  "in_sync s \<longleftrightarrow> queued_urls s = map url (queue_list s) \<and> distinct (queued_urls s)"

section \<open>Removing the selected items\<close>

datatype py_error = ValueError

text \<open>
  \<open>remove_selected\<close> walks a snapshot of the selected items. The selection is an
  input: the rows of the selected items when the button is pressed. The loop below
  visits the items in row order with \<open>row\<close> the original row of the item at the
  head; for a selected item, \<open>queued_urls.remove(url)\<close> deletes the first
  occurrence of its url and raises \<open>ValueError\<close> when there is none, then the item
  is taken out of the list and a line is logged.
\<close>

fun remove_selected_loop ::
  "nat list \<Rightarrow> nat \<Rightarrow> item list \<Rightarrow> string list \<Rightarrow> log_line list \<Rightarrow>
   py_error + (item list \<times> string list \<times> log_line list)" where
  "remove_selected_loop sel row [] qu con = Inr ([], qu, con)"
| "remove_selected_loop sel row (it # its) qu con =
     (if row \<in> set sel then
        (if url it \<in> set qu
         then remove_selected_loop sel (row + 1) its (remove1 (url it) qu)
                (con @ [LogRemoved (url it)])
         else Inl ValueError)
      else
        (case remove_selected_loop sel (row + 1) its qu con of
           Inl e \<Rightarrow> Inl e
         | Inr (its', qu', con') \<Rightarrow> Inr (it # its', qu', con')))"

definition remove_selected :: "nat list \<Rightarrow> main_window \<Rightarrow> py_error + main_window" where
  "remove_selected sel s =
     (case remove_selected_loop sel 0 (queue_list s) (queued_urls s) (console s) of
        Inl e \<Rightarrow> Inl e
      | Inr (ql, qu, con) \<Rightarrow> Inr (s\<lparr>queue_list := ql, queued_urls := qu, console := con\<rparr>))"

section \<open>Slots of the item signals\<close>

text \<open>
  Both setters scan the queue for the first item whose url matches, rewrite one field
  and the display text, and stop (\<open>break\<close>); with no match nothing changes.
\<close>

fun set_progress_items :: "string \<Rightarrow> int \<Rightarrow> item list \<Rightarrow> item list" where
  "set_progress_items u percent [] = []"
| "set_progress_items u percent (it # its) =
     (if url it = u then it\<lparr>progress := percent, item_text := TextProgress u percent\<rparr> # its
      else it # set_progress_items u percent its)"

definition on_item_progress :: "string \<Rightarrow> int \<Rightarrow> main_window \<Rightarrow> main_window" where
  "on_item_progress u percent s = s\<lparr>queue_list := set_progress_items u percent (queue_list s)\<rparr>"

fun set_status_items :: "string \<Rightarrow> string \<Rightarrow> item list \<Rightarrow> item list" where
  "set_status_items u st [] = []"
| "set_status_items u st (it # its) =
     (if url it = u then it\<lparr>status := st, item_text := TextStatus u st\<rparr> # its
      else it # set_status_items u st its)"

definition set_item_status :: "string \<Rightarrow> string \<Rightarrow> main_window \<Rightarrow> main_window" where
  "set_item_status u st s = s\<lparr>queue_list := set_status_items u st (queue_list s)\<rparr>"

definition on_item_status :: "string \<Rightarrow> string \<Rightarrow> main_window \<Rightarrow> main_window" where
  "on_item_status u st s = set_item_status u st s"

text \<open>
  Paths follow \<open>posixpath\<close>: \<open>basename\<close> is what follows the last slash,
  \<open>join\<close> returns its second argument when that is absolute and otherwise puts one
  slash between the two unless the first is empty or ends with one. The file system is
  the set of paths that name an existing regular file (\<open>os.path.isfile\<close>).
\<close>

definition os_path_basename :: "string \<Rightarrow> string" where
  "os_path_basename p = rev (takeWhile (\<lambda>c. c \<noteq> CHR ''/'') (rev p))"

definition os_path_join :: "string \<Rightarrow> string \<Rightarrow> string" where
  "os_path_join a b =
     (if b \<noteq> [] \<and> hd b = CHR ''/'' then b
      else if a = [] \<or> last a = CHR ''/'' then a @ b
      else a @ ''/'' @ b)"

definition os_path_isfile :: "string set \<Rightarrow> string \<Rightarrow> bool" where
  "os_path_isfile fs p \<longleftrightarrow> p \<in> fs"

definition record_file :: "string set \<Rightarrow> string \<Rightarrow> main_window \<Rightarrow> main_window" where
  "record_file fs fp s =
     (if fp \<noteq> [] then
        (if os_path_isfile fs fp then s\<lparr>downloaded_files := downloaded_files s @ [fp]\<rparr>
         else
           (let b = os_path_basename fp; cand = os_path_join (download_dir s) b
            in if os_path_isfile fs cand
               then s\<lparr>downloaded_files := downloaded_files s @ [cand]\<rparr>
               else s))
      else s)"

definition on_item_finished :: "string set \<Rightarrow> string \<Rightarrow> string \<Rightarrow> main_window \<Rightarrow> main_window" where
  "on_item_finished fs u fp s =
     (let s1 = record_file fs fp s;
          s2 = set_item_status u ''completed'' s1;
          cur = pb_value (global_progress s2)
      in s2\<lparr>global_progress :=
              (global_progress s2)\<lparr>pb_value := min (pb_maximum (global_progress s2)) (cur + 1)\<rparr>\<rparr>)"

section \<open>Starting and stopping a batch\<close>

definition make_worker :: "string \<Rightarrow> string \<Rightarrow> worker" where
  "make_worker u dir =
     \<lparr>w_url = u, w_out_dir = dir, w_format = ''best'',
      w_outtmpl = os_path_join dir ''%(title)s.%(ext)s''\<rparr>"

text \<open>
  One turn of the loop of \<open>_submit_all\<close> for the item with url \<open>u\<close>: a worker
  is created and handed to \<open>self.threadpool.start\<close>, the counter is incremented and
  the item is marked \<open>running\<close>.
\<close>

definition submit_one :: "string \<Rightarrow> main_window \<Rightarrow> main_window" where
  "submit_one u s =
     set_item_status u ''running''
       (s\<lparr>threadpool := (threadpool s)
             \<lparr>submitted := submitted (threadpool s) @ [make_worker u (download_dir s)]\<rparr>,
          running_count := running_count s + 1\<rparr>)"

text \<open>
  The loop runs over the rows \<open>0 .. count - 1\<close> and reads the url of the item at
  each row. No turn changes the number of items or the url of any item, so the urls read
  are the urls of the queue when the loop starts, in row order.
\<close>

fun submit_loop :: "string list \<Rightarrow> main_window \<Rightarrow> main_window" where
  "submit_loop [] s = s"
| "submit_loop (u # us) s = submit_loop us (submit_one u s)"

definition submit_all :: "int \<Rightarrow> main_window \<Rightarrow> main_window" where
  "submit_all max_workers s =
     (let s1 = s\<lparr>console := console s @ [LogLaunch (length (queued_urls s)) max_workers]\<rparr>;
          s2 = s1\<lparr>threadpool := (threadpool s1)\<lparr>max_thread_count := max_workers\<rparr>\<rparr>
      in submit_loop (map url (queue_list s2)) s2)"

datatype start_result = RejectedEmptyQueue | RejectedNoYtDlp | Started

text \<open>
  \<open>start_downloads\<close> shows a warning box and returns at once when the url list is
  empty or yt-dlp is missing; the result says which.
\<close>

definition start_downloads :: "main_window \<Rightarrow> start_result \<times> main_window" where
  "start_downloads s =
     (if queued_urls s = [] then (RejectedEmptyQueue, s)
      else if \<not> yt_dlp_available s then (RejectedNoYtDlp, s)
      else
        (let max_workers = threads_spin s;
             s1 = s\<lparr>start_btn_enabled := False, stop_btn_enabled := True,
                    install_btn_enabled := False,
                    global_progress :=
                      \<lparr>pb_value = 0, pb_maximum = int (length (queued_urls s))\<rparr>,
                    running_count := 0\<rparr>
         in (Started, submit_all max_workers s1)))"

datatype button = Yes | No | Cancel

text \<open>
  \<open>stop_downloads\<close> asks for confirmation. On \<open>Yes\<close> it binds
  \<open>self.threadpool\<close> to a new pool with the current worker limit; the pool it
  referred to so far is left as it is.
\<close>

definition stop_downloads :: "button \<Rightarrow> main_window \<Rightarrow> main_window" where
  "stop_downloads reply s =
     (if reply = Yes then
        s\<lparr>detached_pools := detached_pools s @ [threadpool s],
          threadpool := \<lparr>max_thread_count = threads_spin s, submitted = []\<rparr>,
          console := console s @ [LogStopped],
          start_btn_enabled := True, stop_btn_enabled := False,
          install_btn_enabled := True\<rparr>
      else s)"

section \<open>Reset\<close>

text \<open>
  The deletion loop of \<open>reset_all\<close> over a copy of \<open>downloaded_files\<close>.
  \<open>rm f\<close> is the exception that \<open>os.remove(f)\<close> raises, if it raises one; the
  loop catches it and logs it.
\<close>

fun delete_files ::
  "(string \<Rightarrow> exn option) \<Rightarrow> string list \<Rightarrow> string set \<Rightarrow> nat \<Rightarrow> log_line list \<Rightarrow>
   string set \<times> nat \<times> log_line list" where
  "delete_files rm [] fs removed con = (fs, removed, con)"
| "delete_files rm (f # rest) fs removed con =
     (if os_path_isfile fs f then
        (case rm f of
           None \<Rightarrow> delete_files rm rest (fs - {f}) (removed + 1) con
         | Some e \<Rightarrow> delete_files rm rest fs removed (con @ [LogRemoveError f e]))
      else delete_files rm rest fs removed con)"

definition clear_all :: "main_window \<Rightarrow> main_window" where
  "clear_all s =
     s\<lparr>queue_list := [], queued_urls := [], console := [], downloaded_files := [],
       global_progress := (global_progress s)\<lparr>pb_value := 0\<rparr>\<rparr>"

text \<open>
  \<open>res\<close> is the button that closes the dialog and \<open>checked\<close> the state of its
  check box.
\<close>

definition reset_all ::
  "button \<Rightarrow> bool \<Rightarrow> (string \<Rightarrow> exn option) \<Rightarrow> string set \<times> main_window \<Rightarrow>
   string set \<times> main_window" where
  "reset_all res checked rm w =
     (case w of (fs, s) \<Rightarrow>
        if res = Cancel then (fs, s)
        else if res = Yes \<and> checked then
          (case delete_files rm (downloaded_files s) fs 0 (console s) of
             (fs', removed, con) \<Rightarrow>
               (fs', clear_all (s\<lparr>console := con @ [LogRemovedFiles removed]\<rparr>)))
        else (fs, clear_all s))"

section \<open>The download worker\<close>

datatype signal =
    AppendConsole log_line
  | ItemProgress string int
  | ItemStatus string string
  | ItemFinished string string
  | EnableUi bool

text \<open>
  The dictionary passed to the progress hook, by the keys the hook reads. Byte counts
  are integers; \<open>None\<close> is a key that is absent (for the two totals and the two file
  names also one that holds \<open>None\<close>). \<open>Malformed e\<close> is a dictionary on which
  the body of the hook raises \<open>e\<close>; every statement that can raise comes before the
  first \<open>emit\<close>.
\<close>

datatype hook_dict =
    Downloading "int option" "int option" "int option" string
      \<comment> \<open>\<open>total_bytes\<close>, \<open>total_bytes_estimate\<close>, \<open>downloaded_bytes\<close>, the text of \<open>eta\<close>\<close>
  | Finished "string option" "string option"
      \<comment> \<open>\<open>filename\<close>, \<open>info_dict.filepath\<close>\<close>
  | OtherStatus
  | Malformed exn

text \<open>
  \<open>float_percent downloaded total\<close> stands for \<open>int(downloaded / total * 100)\<close>,
  which the source computes in floating point; it is a parameter.
\<close>

definition progress_hook :: "(int \<Rightarrow> int \<Rightarrow> int) \<Rightarrow> string \<Rightarrow> hook_dict \<Rightarrow> signal list" where
  "progress_hook float_percent u d =
     (case d of
        Downloading tb tbe db eta \<Rightarrow>
          (let estimate = (case tbe of Some e \<Rightarrow> e | None \<Rightarrow> 0);
               total = (case tb of Some t \<Rightarrow> if t \<noteq> 0 then t else estimate | None \<Rightarrow> estimate);
               downloaded = (case db of Some n \<Rightarrow> n | None \<Rightarrow> 0);
               percent = (if total \<noteq> 0 then float_percent downloaded total else 0)
           in [ItemProgress u percent, AppendConsole (LogDownloading u percent eta)])
      | Finished fn ifp \<Rightarrow>
          (let filename = (case fn of Some f \<Rightarrow> if f \<noteq> [] then Some f else ifp | None \<Rightarrow> ifp)
           in [ItemProgress u 100, AppendConsole (LogFinished u filename),
               ItemFinished u (case filename of Some f \<Rightarrow> f | None \<Rightarrow> [])])
      | OtherStatus \<Rightarrow> []
      | Malformed e \<Rightarrow> [AppendConsole (LogHookError e)])"

text \<open>
  The fetch library is a collaborator: a call of \<open>YoutubeDL(opts).download([url])\<close>
  is given by the callbacks it makes (progress hook and logger) and by how it ends:
  it returns, or it raises (\<open>Raises\<close>: in the constructor or in \<open>download\<close>), or
  \<open>download\<close> returns and leaving the \<open>with\<close> block raises
  (\<open>RaisesOnExit\<close>, after the status \<open>done\<close> has been emitted).
\<close>

datatype callback =
    CallHook hook_dict
  | CallDebug string
  | CallInfo string
  | CallWarning string
  | CallError string

datatype fetch_end = Returns | Raises exn | RaisesOnExit exn

definition on_callback :: "(int \<Rightarrow> int \<Rightarrow> int) \<Rightarrow> string \<Rightarrow> callback \<Rightarrow> signal list" where
  "on_callback float_percent u cb =
     (case cb of
        CallHook d \<Rightarrow> progress_hook float_percent u d
      | CallDebug m \<Rightarrow> []
      | CallInfo m \<Rightarrow> [AppendConsole (LogYtDlpInfo m)]
      | CallWarning m \<Rightarrow> [AppendConsole (LogYtDlpWarning m)]
      | CallError m \<Rightarrow> [AppendConsole (LogYtDlpError m)])"

text \<open>
  The body of the \<open>try\<close> block of \<open>DownloadWorker.run\<close>: the signals it emits
  and the exception that ends it, if any. \<open>ydl\<close> tells whether \<open>YoutubeDL\<close> is
  there (not \<open>None\<close>).
\<close>

definition run_try ::
  "bool \<Rightarrow> (int \<Rightarrow> int \<Rightarrow> int) \<Rightarrow> worker \<Rightarrow> callback list \<times> fetch_end \<Rightarrow>
   signal list \<times> exn option" where
  "run_try ydl float_percent w fetch =
     (case fetch of (cbs, fin) \<Rightarrow>
        if \<not> ydl then
          ([AppendConsole (LogStartingDownload (w_url w)), AppendConsole LogMissingYtDlp,
            ItemStatus (w_url w) ''missing yt-dlp''], None)
        else
          (case fin of
             Returns \<Rightarrow>
               (AppendConsole (LogStartingDownload (w_url w)) #
                concat (map (on_callback float_percent (w_url w)) cbs) @
                [ItemStatus (w_url w) ''done''], None)
           | Raises e \<Rightarrow>
               (AppendConsole (LogStartingDownload (w_url w)) #
                concat (map (on_callback float_percent (w_url w)) cbs), Some e)
           | RaisesOnExit e \<Rightarrow>
               (AppendConsole (LogStartingDownload (w_url w)) #
                concat (map (on_callback float_percent (w_url w)) cbs) @
                [ItemStatus (w_url w) ''done''], Some e)))"

text \<open>
  \<open>run\<close> with its \<open>except Exception\<close> clause. The second component is the
  exception that leaves \<open>run\<close>.
\<close>

definition run ::
  "bool \<Rightarrow> (int \<Rightarrow> int \<Rightarrow> int) \<Rightarrow> worker \<Rightarrow> callback list \<times> fetch_end \<Rightarrow>
   signal list \<times> exn option" where
  "run ydl float_percent w fetch =
     (case run_try ydl float_percent w fetch of
        (sigs, None) \<Rightarrow> (sigs, None)
      | (sigs, Some e) \<Rightarrow>
          (sigs @ [AppendConsole (LogErrorDownloading (w_url w) e),
                   ItemStatus (w_url w) ''error''], None))"

text \<open>
  The window handles each signal in its slot. A signal is delivered together with the
  file system of the moment it is handled.
\<close>

definition handle_signal :: "string set \<Rightarrow> signal \<Rightarrow> main_window \<Rightarrow> main_window" where
  "handle_signal fs sg s =
     (case sg of
        AppendConsole l \<Rightarrow> s\<lparr>console := console s @ [l]\<rparr>
      | ItemProgress u percent \<Rightarrow> on_item_progress u percent s
      | ItemStatus u st \<Rightarrow> on_item_status u st s
      | ItemFinished u fp \<Rightarrow> on_item_finished fs u fp s
      | EnableUi b \<Rightarrow> s\<lparr>start_btn_enabled := b, install_btn_enabled := b\<rparr>)"

fun deliver :: "(string set \<times> signal) list \<Rightarrow> main_window \<Rightarrow> main_window" where
  "deliver [] s = s"
| "deliver ((fs, sg) # rest) s = deliver rest (handle_signal fs sg s)"

section \<open>The window when it is created\<close>

text \<open>
  \<open>__init__\<close> and \<open>_build_ui\<close>: empty queue and lists, the progress bar with
  the defaults of \<open>QProgressBar\<close>, three worker threads, the global thread pool
  (whose thread count \<open>ideal\<close> is the platform's), \<open>Stop\<close> disabled, and the
  install button enabled when yt-dlp is missing. \<open>dir\<close> is the absolute path of
  the \<open>downloads\<close> directory.
\<close>

definition init_window :: "string \<Rightarrow> int \<Rightarrow> bool \<Rightarrow> main_window" where
  "init_window dir ideal avail =
     \<lparr>queue_list = [], queued_urls = [], downloaded_files = [], running_count = 0,
      console = [], global_progress = \<lparr>pb_value = - 1, pb_maximum = 100\<rparr>,
      download_dir = dir, threads_spin = 3,
      threadpool = \<lparr>max_thread_count = ideal, submitted = []\<rparr>, detached_pools = [],
      start_btn_enabled = True, stop_btn_enabled = False,
      install_btn_enabled = (\<not> avail), yt_dlp_available = avail\<rparr>"

section \<open>Reading the queue\<close>

text \<open>The item that the slots update for a url: the first one that carries it.\<close>

definition find_item :: "string \<Rightarrow> main_window \<Rightarrow> item option" where
  "find_item u s = find (\<lambda>it. url it = u) (queue_list s)"

definition count_running :: "main_window \<Rightarrow> nat" where
  "count_running s = length (filter (\<lambda>it. status it = ''running'') (queue_list s))"

text \<open>An item after the submission loop has run over the urls \<open>us\<close>.\<close>

definition mark :: "string list \<Rightarrow> item \<Rightarrow> item" where
  "mark us it = (if url it \<in> set us
                 then it\<lparr>status := ''running'', item_text := TextStatus (url it) ''running''\<rparr>
                 else it)"

text \<open>The exception a fetch call ends with, if it ends with one.\<close>

fun raised :: "fetch_end \<Rightarrow> exn option" where
  "raised Returns = None"
| "raised (Raises e) = Some e"
| "raised (RaisesOnExit e) = Some e"

text \<open>The url a signal is about, if it is about one.\<close>

fun signal_url :: "signal \<Rightarrow> string option" where
  "signal_url (AppendConsole l) = None"
| "signal_url (ItemProgress u percent) = Some u"
| "signal_url (ItemStatus u st) = Some u"
| "signal_url (ItemFinished u fp) = Some u"
| "signal_url (EnableUi b) = None"

text \<open>
  Three links are queued in a new window and the worker limit is set to one; then the
  batch is started.
\<close>

definition three_queued :: main_window where
  "three_queued =
     (add_links [''https://rutube.ru/video/a1/'', ''https://rutube.ru/video/b2/'',
                 ''https://rutube.ru/video/c3/'']
        (init_window ''/dl'' 8 True))\<lparr>threads_spin := 1\<rparr>"

definition three_started :: main_window where
  "three_started = snd (start_downloads three_queued)"

section \<open>Adding a link twice\<close>

lemma add_links_queue_present:
  "u \<in> set (queued_urls s) \<Longrightarrow>
   queue_list (add_links [u] s) = queue_list s \<and> queued_urls (add_links [u] s) = queued_urls s"
  by (simp add: add_links_def)

lemma add_links_queue_absent:
  "u \<notin> set (queued_urls s) \<Longrightarrow>
   queue_list (add_links [u] s) = queue_list s @ [new_item u] \<and>
   queued_urls (add_links [u] s) = queued_urls s @ [u]"
  by (simp add: add_links_def)

lemma one_item_per_url:
  "distinct (map url ql) \<Longrightarrow> u \<in> set (map url ql) \<Longrightarrow>
   length (filter (\<lambda>it. url it = u) ql) = 1"
proof (induction ql)
  case Nil
  then show ?case by simp
next
  case (Cons it ql)
  show ?case
  proof (cases "url it = u")
    case True
    with Cons.prems have "u \<notin> url ` set ql" by simp
    then have "filter (\<lambda>i. url i = u) ql = []"
      unfolding filter_empty_conv by blast
    with True show ?thesis by simp
  next
    case False
    with Cons show ?thesis by simp
  qed
qed

lemma in_sync_iff:
  "in_sync s \<longleftrightarrow>
   queued_urls s = map url (queue_list s) \<and> distinct (map url (queue_list s))"
  unfolding in_sync_def by (cases "queued_urls s = map url (queue_list s)") simp_all

lemma add_links_loop_sync:
  "in_sync s \<Longrightarrow> in_sync (snd (add_links_loop links added s))"
proof (induction links added s rule: add_links_loop.induct)
  case (1 added s)
  then show ?case by simp
next
  case (2 link links added s)
  show ?case
  proof (cases "link \<in> set (queued_urls s)")
    case True
    with 2 show ?thesis by simp
  next
    case False
    let ?s' = "s\<lparr>queue_list := queue_list s @ [new_item link],
                  queued_urls := queued_urls s @ [link],
                  console := console s @ [LogDebugAdded link]\<rparr>"
    from "2.prems" False have "in_sync ?s'"
      by (simp add: in_sync_iff new_item_def)
    with "2.IH"(2) False show ?thesis by simp
  qed
qed

lemma in_sync_console: "in_sync (s\<lparr>console := c\<rparr>) = in_sync s"
  by (simp add: in_sync_def)

lemma add_links_sync: "in_sync s \<Longrightarrow> in_sync (add_links links s)"
  using add_links_loop_sync [of s links 0]
  by (cases "add_links_loop links 0 s") (simp add: add_links_def in_sync_console)

lemma remdups_snoc:
  "remdups (ys @ [x]) = filter (\<lambda>y. y \<noteq> x) (remdups ys) @ [x]"
  by (induction ys) auto

lemma first_occurrences_Cons:
  "rev (remdups (rev (x # xs))) = x # rev (remdups (rev (filter (\<lambda>y. y \<noteq> x) xs)))"
  by (simp add: remdups_snoc rev_filter remdups_filter)

text \<open>
  The whole effect of \<open>_add_links\<close> on a submission of any number of links: the
  fresh links are appended to the queue, as new items, and to the url list, each is
  logged, and their number is logged last; nothing else changes.
\<close>

lemma add_links_loop_effect:
  "add_links_loop links added s =
     (added + length (fresh_links (queued_urls s) links),
      s\<lparr>queue_list := queue_list s @ map new_item (fresh_links (queued_urls s) links),
        queued_urls := queued_urls s @ fresh_links (queued_urls s) links,
        console := console s @ map LogDebugAdded (fresh_links (queued_urls s) links)\<rparr>)"
proof (induction links arbitrary: added s)
  case Nil
  then show ?case by (simp add: fresh_links_def)
next
  case (Cons link links)
  show ?case
  proof (cases "link \<in> set (queued_urls s)")
    case True
    then have "fresh_links (queued_urls s) (link # links) = fresh_links (queued_urls s) links"
      by (simp add: fresh_links_def)
    with True Cons.IH [of added s] show ?thesis by simp
  next
    case False
    let ?s' = "s\<lparr>queue_list := queue_list s @ [new_item link],
                  queued_urls := queued_urls s @ [link],
                  console := console s @ [LogDebugAdded link]\<rparr>"
    have c: "(\<lambda>l. l \<notin> set (queued_urls s) \<and> l \<noteq> link)
              = (\<lambda>l. l \<noteq> link \<and> l \<notin> set (queued_urls s))"
      by (rule ext) (rule conj_commute)
    have "fresh_links (queued_urls s) (link # links)
            = rev (remdups (rev (link # filter (\<lambda>l. l \<notin> set (queued_urls s)) links)))"
      using False unfolding fresh_links_def by simp
    also have "\<dots> = link # rev (remdups (rev (filter (\<lambda>y. y \<noteq> link)
                        (filter (\<lambda>l. l \<notin> set (queued_urls s)) links))))"
      by (rule first_occurrences_Cons)
    also have "\<dots> = link # fresh_links (queued_urls ?s') links"
      unfolding fresh_links_def by (simp add: c)
    finally have f: "fresh_links (queued_urls s) (link # links)
             = link # fresh_links (queued_urls ?s') links" .
    from False Cons.IH [of "added + 1" ?s'] show ?thesis
      by (simp add: f)
  qed
qed

lemma add_links_effect:
  "add_links links s =
     s\<lparr>queue_list := queue_list s @ map new_item (fresh_links (queued_urls s) links),
       queued_urls := queued_urls s @ fresh_links (queued_urls s) links,
       console := console s @ map LogDebugAdded (fresh_links (queued_urls s) links)
                    @ [LogAdded (length (fresh_links (queued_urls s) links))]\<rparr>"
  by (simp add: add_links_def add_links_loop_effect)

lemma fresh_links_again:
  "fresh_links (qu @ fresh_links qu links) links = []"
proof -
  have "set (fresh_links qu links) = {l \<in> set links. l \<notin> set qu}"
    by (auto simp: fresh_links_def)
  then have "filter (\<lambda>l. l \<notin> set (qu @ fresh_links qu links)) links = []"
    by (auto simp: filter_empty_conv)
  then show ?thesis by (simp add: fresh_links_def)
qed

lemma fresh_links_set:
  "set (fresh_links qu links) = set links - set qu \<and> distinct (fresh_links qu links)"
  by (auto simp: fresh_links_def)

text \<open>
  Claim C8. Adding a url is idempotent. For a url that is already in the url list,
  \<open>_add_links\<close> leaves the queue and the url list as they are; for a url that is
  not, it appends exactly one item, with status \<open>queued\<close> and progress 0, and the
  url. Adding the same url a second time changes neither, and when the url list and the
  queue are in sync the queue then holds exactly one item with that url. The same holds
  of a submission of several links: it appends one new item for each link that is not
  yet in the url list, once each and in the order of first occurrence, also for a link
  that comes after a duplicate, and changes nothing else but the console; submitting
  the same links again, or a link twice in one submission, adds nothing more; and a
  submitted url is then carried by exactly one item.
\<close>

theorem add_links_idempotent:
  "(u \<in> set (queued_urls s) \<longrightarrow>
      queue_list (add_links [u] s) = queue_list s \<and>
      queued_urls (add_links [u] s) = queued_urls s) \<and>
   (u \<notin> set (queued_urls s) \<longrightarrow>
      queue_list (add_links [u] s) = queue_list s @ [new_item u] \<and>
      queued_urls (add_links [u] s) = queued_urls s @ [u] \<and>
      status (new_item u) = ''queued'' \<and> progress (new_item u) = 0 \<and> url (new_item u) = u) \<and>
   queue_list (add_links [u] (add_links [u] s)) = queue_list (add_links [u] s) \<and>
   queued_urls (add_links [u] (add_links [u] s)) = queued_urls (add_links [u] s) \<and>
   (in_sync s \<longrightarrow>
      length (filter (\<lambda>it. url it = u) (queue_list (add_links [u] (add_links [u] s)))) = 1) \<and>
   add_links links s =
     s\<lparr>queue_list := queue_list s @ map new_item (fresh_links (queued_urls s) links),
       queued_urls := queued_urls s @ fresh_links (queued_urls s) links,
       console := console s @ map LogDebugAdded (fresh_links (queued_urls s) links)
                    @ [LogAdded (length (fresh_links (queued_urls s) links))]\<rparr> \<and>
   set (fresh_links (queued_urls s) links) = set links - set (queued_urls s) \<and>
   distinct (fresh_links (queued_urls s) links) \<and>
   queue_list (add_links links (add_links links s)) = queue_list (add_links links s) \<and>
   queued_urls (add_links links (add_links links s)) = queued_urls (add_links links s) \<and>
   queue_list (add_links [u, u] s) = queue_list (add_links [u] s) \<and>
   queued_urls (add_links [u, u] s) = queued_urls (add_links [u] s) \<and>
   (in_sync s \<and> u \<in> set links \<longrightarrow>
      length (filter (\<lambda>it. url it = u) (queue_list (add_links links s))) = 1)"
proof -
  have present: "u \<in> set (queued_urls (add_links [u] s))"
    by (cases "u \<in> set (queued_urls s)") (simp_all add: add_links_def)
  have twice_q: "queue_list (add_links [u] (add_links [u] s)) = queue_list (add_links [u] s)"
    and twice_u: "queued_urls (add_links [u] (add_links [u] s)) = queued_urls (add_links [u] s)"
    using add_links_queue_present [OF present] by simp_all
  have one_of: "length (filter (\<lambda>it. url it = u) (queue_list (add_links ls s))) = 1"
    if "in_sync s" and "u \<in> set ls" for ls
  proof -
    from add_links_sync [OF that(1), of ls]
    have eq: "queued_urls (add_links ls s) = map url (queue_list (add_links ls s))"
      and d: "distinct (map url (queue_list (add_links ls s)))"
      unfolding in_sync_iff by blast+
    have "u \<in> set (queued_urls (add_links ls s))"
      using that(2) by (cases "u \<in> set (queued_urls s)") (simp_all add: add_links_effect fresh_links_set)
    then show ?thesis using one_item_per_url [OF d, of u] unfolding eq by blast
  qed
  have one: "length (filter (\<lambda>it. url it = u) (queue_list (add_links [u] s))) = 1" if "in_sync s"
    using one_of [OF that, of "[u]"] by simp
  have again_q: "queue_list (add_links links (add_links links s)) = queue_list (add_links links s)"
    and again_u: "queued_urls (add_links links (add_links links s)) = queued_urls (add_links links s)"
  proof -
    have "queued_urls (add_links links s) = queued_urls s @ fresh_links (queued_urls s) links"
      by (simp add: add_links_effect)
    then have none: "fresh_links (queued_urls (add_links links s)) links = []"
      by (simp only: fresh_links_again)
    have e: "add_links links (add_links links s) =
        (add_links links s)\<lparr>queue_list := queue_list (add_links links s) @ map new_item [],
          queued_urls := queued_urls (add_links links s) @ [],
          console := console (add_links links s) @ map LogDebugAdded [] @ [LogAdded (length ([] :: string list))]\<rparr>"
      using add_links_effect [of links "add_links links s"] unfolding none .
    show "queue_list (add_links links (add_links links s)) = queue_list (add_links links s)"
      by (subst e) simp
    show "queued_urls (add_links links (add_links links s)) = queued_urls (add_links links s)"
      by (subst e) simp
  qed
  have uu: "fresh_links (queued_urls s) [u, u] = fresh_links (queued_urls s) [u]"
    by (simp add: fresh_links_def)
  have dup_q: "queue_list (add_links [u, u] s) = queue_list (add_links [u] s)"
    and dup_u: "queued_urls (add_links [u, u] s) = queued_urls (add_links [u] s)"
    by (simp_all add: add_links_effect uu)
  show ?thesis
    using add_links_queue_present [of u s] add_links_queue_absent [of u s] twice_q twice_u one
      add_links_effect [of links s] fresh_links_set [of "queued_urls s" links]
      again_q again_u dup_q dup_u one_of [of links]
    by (simp add: new_item_def)
qed

theorem add_links_idempotent_witness:
  "''https://rutube.ru/video/a1/'' \<notin> set (queued_urls (init_window ''/dl'' 8 True)) \<and>
   in_sync (init_window ''/dl'' 8 True) \<and>
   ''https://rutube.ru/video/a1/'' \<in> set [''https://rutube.ru/video/a1/'',
        ''https://rutube.ru/video/a1/'', ''https://rutube.ru/video/b2/'',
        ''https://rutube.ru/video/a1/'', ''https://rutube.ru/video/c3/''] \<and>
   queue_list (add_links [''https://rutube.ru/video/a1/''] (init_window ''/dl'' 8 True))
     = [new_item ''https://rutube.ru/video/a1/''] \<and>
   queue_list (add_links [''https://rutube.ru/video/a1/'']
      (add_links [''https://rutube.ru/video/a1/''] (init_window ''/dl'' 8 True)))
     = [new_item ''https://rutube.ru/video/a1/''] \<and>
   length (filter (\<lambda>it. url it = ''https://rutube.ru/video/a1/'')
      (queue_list (add_links [''https://rutube.ru/video/a1/'']
         (add_links [''https://rutube.ru/video/a1/''] (init_window ''/dl'' 8 True))))) = 1 \<and>
   queued_urls (add_links [''https://rutube.ru/video/a1/'', ''https://rutube.ru/video/a1/'',
        ''https://rutube.ru/video/b2/'', ''https://rutube.ru/video/a1/'',
        ''https://rutube.ru/video/c3/'']
      (init_window ''/dl'' 8 True))
     = [''https://rutube.ru/video/a1/'', ''https://rutube.ru/video/b2/'',
        ''https://rutube.ru/video/c3/''] \<and>
   length (filter (\<lambda>it. url it = ''https://rutube.ru/video/a1/'')
      (queue_list (add_links [''https://rutube.ru/video/a1/'', ''https://rutube.ru/video/a1/'',
        ''https://rutube.ru/video/b2/'', ''https://rutube.ru/video/a1/'',
        ''https://rutube.ru/video/c3/'']
      (init_window ''/dl'' 8 True)))) = 1"
proof -
  let ?u = "''https://rutube.ru/video/a1/''"
  let ?w = "init_window ''/dl'' 8 True"
  let ?links = "[''https://rutube.ru/video/a1/'', ''https://rutube.ru/video/a1/'',
        ''https://rutube.ru/video/b2/'', ''https://rutube.ru/video/a1/'',
        ''https://rutube.ru/video/c3/'']"
  note t = add_links_idempotent [of ?u ?w ?links]
  have h1: "?u \<notin> set (queued_urls ?w)" and h2: "in_sync ?w" and h3: "?u \<in> set ?links"
    and q: "queue_list ?w = []" and qu: "queued_urls ?w = []"
    by (simp_all add: init_window_def in_sync_def)
  from t h1 have a: "queue_list (add_links [?u] ?w) = queue_list ?w @ [new_item ?u]"
    by (elim conjE) (erule (1) impE, elim conjE, assumption)
  from t have b: "queue_list (add_links [?u] (add_links [?u] ?w)) = queue_list (add_links [?u] ?w)"
    by (elim conjE)
  from t h2 have c: "length (filter (\<lambda>it. url it = ?u)
      (queue_list (add_links [?u] (add_links [?u] ?w)))) = 1"
    by (elim conjE) (erule (1) impE)+
  from t have d: "queued_urls (add_links ?links ?w)
      = queued_urls ?w @ fresh_links (queued_urls ?w) ?links"
    by (elim conjE) simp
  from t h2 h3 have e: "length (filter (\<lambda>it. url it = ?u) (queue_list (add_links ?links ?w))) = 1"
    by (elim conjE) simp
  have f: "fresh_links [] ?links
      = [''https://rutube.ru/video/a1/'', ''https://rutube.ru/video/b2/'',
         ''https://rutube.ru/video/c3/'']"
    by (simp add: fresh_links_def)
  from h1 h2 h3 a b c d e show ?thesis
    unfolding q qu f by simp
qed

section \<open>The url list and the queue stay in sync\<close>

text \<open>
  The loop of \<open>remove_selected\<close>, started on a url list that is some prefix
  followed by the urls of the items still to visit: it does not raise, and the url list
  it returns is the prefix followed by the urls of the items it keeps.
\<close>

lemma remove_selected_loop_sync:
  "distinct (pre @ map url its) \<Longrightarrow>
   \<exists>its' con'. remove_selected_loop sel row its (pre @ map url its) con
                  = Inr (its', pre @ map url its', con') \<and>
                distinct (pre @ map url its')"
proof (induction its arbitrary: pre row con)
  case Nil
  then show ?case by simp
next
  case (Cons it its)
  show ?case
  proof (cases "row \<in> set sel")
    case True
    from Cons.prems have notin: "url it \<notin> set pre" and d: "distinct (pre @ map url its)"
      by auto
    from notin have rm: "remove1 (url it) (pre @ url it # map url its) = pre @ map url its"
      by (simp add: remove1_append)
    from Cons.IH [OF d, of "row + 1" "con @ [LogRemoved (url it)]"] True rm
    show ?thesis by simp
  next
    case False
    from Cons.prems have d: "distinct ((pre @ [url it]) @ map url its)" by simp
    from Cons.IH [OF d, of "row + 1" con] False
    show ?thesis by auto
  qed
qed

lemma remove_selected_sync:
  assumes "in_sync s"
  shows "\<exists>s'. remove_selected sel s = Inr s' \<and> in_sync s'"
proof -
  from assms have eq: "queued_urls s = map url (queue_list s)"
    and d: "distinct ([] @ map url (queue_list s))"
    unfolding in_sync_iff by simp_all
  from remove_selected_loop_sync [OF d, of sel 0 "console s"]
  obtain its' con' where
    r: "remove_selected_loop sel 0 (queue_list s) (map url (queue_list s)) (console s)
          = Inr (its', map url its', con')" and d': "distinct (map url its')"
    by auto
  from r d' show ?thesis
    by (simp add: remove_selected_def eq in_sync_iff)
qed

lemma clear_all_sync: "in_sync (clear_all s)"
  by (simp add: clear_all_def in_sync_def)

lemma reset_all_sync: "in_sync s \<Longrightarrow> in_sync (snd (reset_all res checked rm (fs, s)))"
  by (simp add: reset_all_def clear_all_sync split: prod.splits)

text \<open>
  Claim C10. Each operation that changes the queue keeps the url list and the queue in
  sync (the url list is the list of the urls of the queue items, in the same order and
  without duplicates): adding links, removing the selected items (which then does not
  raise), and the reset, whatever the answer to its dialog.
\<close>

theorem queue_operations_keep_sync:
  assumes "in_sync s"
  shows "in_sync (add_links links s) \<and>
         (\<exists>s'. remove_selected sel s = Inr s' \<and> in_sync s') \<and>
         in_sync (snd (reset_all res checked rm (fs, s)))"
  using assms add_links_sync remove_selected_sync reset_all_sync by blast

theorem queue_operations_keep_sync_witness:
  "in_sync (add_links [''u1'', ''u2'', ''u3''] (init_window ''/dl'' 8 True)) \<and>
   in_sync (add_links [''u2'', ''u4''] (add_links [''u1'', ''u2'', ''u3''] (init_window ''/dl'' 8 True))) \<and>
   (\<exists>s'. remove_selected [1] (add_links [''u1'', ''u2'', ''u3''] (init_window ''/dl'' 8 True)) = Inr s'
         \<and> in_sync s' \<and> queued_urls s' = [''u1'', ''u3'']) \<and>
   in_sync (snd (reset_all No False (\<lambda>f. None) ({},
      add_links [''u1'', ''u2'', ''u3''] (init_window ''/dl'' 8 True))))"
proof -
  let ?s = "add_links [''u1'', ''u2'', ''u3''] (init_window ''/dl'' 8 True)"
  have s: "in_sync ?s"
    by (simp add: add_links_def init_window_def in_sync_def new_item_def)
  have r: "remove_selected [1] ?s \<noteq> Inl ValueError \<and>
           queued_urls (projr (remove_selected [1] ?s)) = [''u1'', ''u3'']"
    by (simp add: remove_selected_def add_links_def init_window_def new_item_def)
  from queue_operations_keep_sync [OF s, of "[''u2'', ''u4'']" "[1]" No False "\<lambda>f. None" "{}"] r
  show ?thesis using s by auto
qed

section \<open>The reset dialog\<close>

lemma delete_files_subset:
  "fst (delete_files rm fl fs n con) \<subseteq> fs"
  by (induction fl arbitrary: fs n con) (auto split: option.splits)

lemma delete_files_only_listed:
  "fs - fst (delete_files rm fl fs n con) \<subseteq> set fl"
proof (induction fl arbitrary: fs n con)
  case Nil
  then show ?case by simp
next
  case (Cons f rest)
  show ?case
  proof (cases "os_path_isfile fs f \<and> rm f = None")
    case True
    with Cons [of "fs - {f}" "n + 1" con] show ?thesis by auto
  next
    case False
    with Cons [of fs] show ?thesis by (auto split: option.splits)
  qed
qed

lemma delete_files_all:
  "fst (delete_files (\<lambda>f. None) fl fs n con) = fs - set fl"
  by (induction fl arbitrary: fs n con) (auto simp: os_path_isfile_def)

text \<open>
  Claim C9. The reset dialog has three outcomes. \<open>Cancel\<close> changes nothing, neither
  the window nor the files. \<open>No\<close> clears the queue, the url list, the console and
  the list of downloaded files, sets the aggregate progress to 0 and deletes no file.
  Whatever the answer, no file appears, and a file that is gone afterwards was recorded
  in the list of downloaded files and the answer was \<open>Yes\<close> with the box checked.
  With that answer, when no deletion fails, exactly the recorded paths are gone.
\<close>

theorem reset_all_outcomes:
  "reset_all Cancel checked rm (fs, s) = (fs, s) \<and>
   reset_all No checked rm (fs, s) =
     (fs, s\<lparr>queue_list := [], queued_urls := [], console := [], downloaded_files := [],
            global_progress := (global_progress s)\<lparr>pb_value := 0\<rparr>\<rparr>) \<and>
   fst (reset_all res checked rm (fs, s)) \<subseteq> fs \<and>
   (\<forall>f. f \<in> fs \<and> f \<notin> fst (reset_all res checked rm (fs, s)) \<longrightarrow>
        res = Yes \<and> checked \<and> f \<in> set (downloaded_files s)) \<and>
   fst (reset_all Yes True (\<lambda>f. None) (fs, s)) = fs - set (downloaded_files s)"
proof -
  have a: "reset_all Cancel checked rm (fs, s) = (fs, s)"
    by (simp add: reset_all_def)
  have b: "reset_all No checked rm (fs, s) =
     (fs, s\<lparr>queue_list := [], queued_urls := [], console := [], downloaded_files := [],
            global_progress := (global_progress s)\<lparr>pb_value := 0\<rparr>\<rparr>)"
    by (simp add: reset_all_def clear_all_def)
  have fst_eq: "fst (reset_all res checked rm (fs, s)) =
     (if res = Yes \<and> checked then fst (delete_files rm (downloaded_files s) fs 0 (console s))
      else fs)"
    for res checked rm
    by (simp add: reset_all_def split: prod.splits)
  have c: "fst (reset_all res checked rm (fs, s)) \<subseteq> fs"
    unfolding fst_eq using delete_files_subset by simp
  have d: "\<forall>f. f \<in> fs \<and> f \<notin> fst (reset_all res checked rm (fs, s)) \<longrightarrow>
        res = Yes \<and> checked \<and> f \<in> set (downloaded_files s)"
    unfolding fst_eq using delete_files_only_listed [of fs rm "downloaded_files s" 0 "console s"]
    by auto
  have e: "fst (reset_all Yes True (\<lambda>f. None) (fs, s)) = fs - set (downloaded_files s)"
    using fst_eq [where res = Yes and checked = True and rm = "\<lambda>f. None"]
    by (simp add: delete_files_all)
  from a b c d e show ?thesis by blast
qed

theorem reset_all_outcomes_witness:
  "''/dl/a.mp4'' \<in> {''/dl/a.mp4'', ''/dl/b.mp4''} \<and>
   ''/dl/a.mp4'' \<notin> fst (reset_all Yes True (\<lambda>f. None) ({''/dl/a.mp4'', ''/dl/b.mp4''},
      (init_window ''/dl'' 8 True)\<lparr>downloaded_files := [''/dl/a.mp4'', ''/dl/gone.mp4'']\<rparr>)) \<and>
   ''/dl/a.mp4'' \<in> set (downloaded_files
      ((init_window ''/dl'' 8 True)\<lparr>downloaded_files := [''/dl/a.mp4'', ''/dl/gone.mp4'']\<rparr>)) \<and>
   fst (reset_all Yes True (\<lambda>f. None) ({''/dl/a.mp4'', ''/dl/b.mp4''},
      (init_window ''/dl'' 8 True)\<lparr>downloaded_files := [''/dl/a.mp4'', ''/dl/gone.mp4'']\<rparr>))
     = {''/dl/b.mp4''} \<and>
   fst (reset_all No True (\<lambda>f. None) ({''/dl/a.mp4'', ''/dl/b.mp4''},
      (init_window ''/dl'' 8 True)\<lparr>downloaded_files := [''/dl/a.mp4'', ''/dl/gone.mp4'']\<rparr>))
     = {''/dl/a.mp4'', ''/dl/b.mp4''}"
  using reset_all_outcomes [of True "\<lambda>f. None" "{''/dl/a.mp4'', ''/dl/b.mp4''}"
      "(init_window ''/dl'' 8 True)\<lparr>downloaded_files := [''/dl/a.mp4'', ''/dl/gone.mp4'']\<rparr>" Yes]
  by (auto simp: init_window_def)


section \<open>Rejected starts\<close>

text \<open>
  Claim C5. When the url list is empty or yt-dlp is not available, \<open>start_downloads\<close>
  returns at once with a rejection: the window is unchanged, so no worker is handed to
  the pool and no item is touched.
\<close>

theorem start_downloads_rejects:
  assumes "queued_urls s = [] \<or> \<not> yt_dlp_available s"
  shows "start_downloads s =
           (if queued_urls s = [] then RejectedEmptyQueue else RejectedNoYtDlp, s) \<and>
         fst (start_downloads s) \<noteq> Started \<and>
         submitted (threadpool (snd (start_downloads s))) = submitted (threadpool s) \<and>
         queue_list (snd (start_downloads s)) = queue_list s"
  using assms by (auto simp: start_downloads_def)

theorem start_downloads_rejects_witness:
  "queued_urls (init_window ''/dl'' 8 True) = [] \<and>
   start_downloads (init_window ''/dl'' 8 True) = (RejectedEmptyQueue, init_window ''/dl'' 8 True) \<and>
   \<not> yt_dlp_available (add_links [''u1''] (init_window ''/dl'' 8 False)) \<and>
   start_downloads (add_links [''u1''] (init_window ''/dl'' 8 False))
     = (RejectedNoYtDlp, add_links [''u1''] (init_window ''/dl'' 8 False))"
proof -
  have e: "queued_urls (init_window ''/dl'' 8 True) = []"
    by (simp add: init_window_def)
  have n: "\<not> yt_dlp_available (add_links [''u1''] (init_window ''/dl'' 8 False))"
    and q: "queued_urls (add_links [''u1''] (init_window ''/dl'' 8 False)) \<noteq> []"
    by (simp_all add: init_window_def add_links_def)
  from start_downloads_rejects [of "init_window ''/dl'' 8 True"] e
    start_downloads_rejects [of "add_links [''u1''] (init_window ''/dl'' 8 False)"] n q
  show ?thesis by simp
qed

section \<open>Starting a batch\<close>

lemma set_status_items_urls: "map url (set_status_items u st ql) = map url ql"
  by (induction ql) simp_all

lemma set_progress_items_urls: "map url (set_progress_items u p ql) = map url ql"
  by (induction ql) simp_all

lemma set_status_items_distinct:
  "distinct (map url ql) \<Longrightarrow>
   set_status_items u st ql =
     map (\<lambda>it. if url it = u then it\<lparr>status := st, item_text := TextStatus u st\<rparr> else it) ql"
proof (induction ql)
  case Nil
  then show ?case by simp
next
  case (Cons it ql)
  show ?case
  proof (cases "url it = u")
    case True
    with Cons.prems have "u \<notin> url ` set ql" by simp
    then have "\<forall>i \<in> set ql. url i \<noteq> u" by blast
    then have "map (\<lambda>it. if url it = u then it\<lparr>status := st, item_text := TextStatus u st\<rparr> else it) ql = ql"
      by (simp add: map_idI)
    with True show ?thesis by simp
  next
    case False
    with Cons show ?thesis by simp
  qed
qed

lemma submit_one_fields:
  "queue_list (submit_one u s) = set_status_items u ''running'' (queue_list s)"
  "threadpool (submit_one u s) =
     (threadpool s)\<lparr>submitted := submitted (threadpool s) @ [make_worker u (download_dir s)]\<rparr>"
  "download_dir (submit_one u s) = download_dir s"
  "queued_urls (submit_one u s) = queued_urls s"
  by (simp_all add: submit_one_def set_item_status_def)

lemma submit_loop_pool:
  "threadpool (submit_loop us s) =
     (threadpool s)\<lparr>submitted := submitted (threadpool s) @ map (\<lambda>u. make_worker u (download_dir s)) us\<rparr>"
  by (induction us arbitrary: s) (simp_all add: submit_one_fields)

lemma submit_loop_urls: "queued_urls (submit_loop us s) = queued_urls s"
  by (induction us arbitrary: s) (simp_all add: submit_one_fields)

lemma submit_loop_queue:
  "distinct (map url (queue_list s)) \<Longrightarrow>
   queue_list (submit_loop us s) = map (mark us) (queue_list s)"
proof (induction us arbitrary: s)
  case Nil
  then show ?case by (simp add: mark_def)
next
  case (Cons u us)
  have d: "distinct (map url (queue_list (submit_one u s)))"
    using Cons.prems by (simp add: submit_one_fields set_status_items_urls)
  have "queue_list (submit_loop (u # us) s) = map (mark us) (queue_list (submit_one u s))"
    using Cons.IH [OF d] by simp
  also have "\<dots> = map (mark us) (map (\<lambda>it. if url it = u
        then it\<lparr>status := ''running'', item_text := TextStatus u ''running''\<rparr> else it) (queue_list s))"
    using Cons.prems by (simp add: submit_one_fields set_status_items_distinct)
  also have "\<dots> = map (mark (u # us)) (queue_list s)"
    by (simp add: mark_def)
  finally show ?case .
qed

text \<open>
  Claim C1, as the code has it. When a batch is started with the worker limit \<open>N\<close>
  (url list in sync with the queue and not empty, yt-dlp available), the limit is given to
  the thread pool as its maximum thread count and one worker per queue item is handed to
  that pool, in queue order; bounding the workers that execute at once is left to it.
  The queue itself marks every item \<open>running\<close> at submission, whatever \<open>N\<close>
  is; no item stays \<open>queued\<close>.
\<close>

theorem start_marks_every_item_running:
  assumes "in_sync s" and "queued_urls s \<noteq> []" and "yt_dlp_available s"
  shows "fst (start_downloads s) = Started \<and>
         max_thread_count (threadpool (snd (start_downloads s))) = threads_spin s \<and>
         submitted (threadpool (snd (start_downloads s))) =
           submitted (threadpool s) @ map (\<lambda>u. make_worker u (download_dir s)) (queued_urls s) \<and>
         map url (queue_list (snd (start_downloads s))) = map url (queue_list s) \<and>
         map status (queue_list (snd (start_downloads s))) =
           replicate (length (queue_list s)) ''running'' \<and>
         count_running (snd (start_downloads s)) = length (queue_list s)"
proof -
  from assms(1) have eq: "queued_urls s = map url (queue_list s)"
    and d: "distinct (map url (queue_list s))"
    unfolding in_sync_iff by blast+
  define s2 where "s2 = s\<lparr>start_btn_enabled := False, stop_btn_enabled := True,
                    install_btn_enabled := False,
                    global_progress :=
                      \<lparr>pb_value = 0, pb_maximum = int (length (queued_urls s))\<rparr>,
                    running_count := 0,
                    console := console s @ [LogLaunch (length (queued_urls s)) (threads_spin s)],
                    threadpool := (threadpool s)\<lparr>max_thread_count := threads_spin s\<rparr>\<rparr>"
  have st: "start_downloads s = (Started, submit_loop (map url (queue_list s)) s2)"
    using assms(2,3) by (simp add: start_downloads_def submit_all_def s2_def Let_def)
  have d2: "distinct (map url (queue_list s2))" using d by (simp add: s2_def)
  have q: "queue_list (submit_loop (map url (queue_list s)) s2)
             = map (mark (map url (queue_list s))) (queue_list s)"
    using submit_loop_queue [OF d2] by (simp add: s2_def)
  have m: "map status (map (mark (map url (queue_list s))) (queue_list s))
             = replicate (length (queue_list s)) ''running''"
    by (simp add: map_replicate_const [symmetric] mark_def cong: map_cong)
  have u: "map url (map (mark us) ql) = map url ql" for us ql
    by (induction ql) (simp_all add: mark_def)
  have c: "length (filter (\<lambda>it. status it = ''running'') (map (mark (map url (queue_list s))) (queue_list s)))
             = length (queue_list s)"
    by (simp add: filter_map comp_def mark_def)
  show ?thesis
    unfolding st using q m u c
    by (simp add: submit_loop_pool count_running_def s2_def eq)
qed

theorem start_marks_every_item_running_witness:
  "in_sync three_queued \<and> queued_urls three_queued \<noteq> [] \<and> yt_dlp_available three_queued \<and>
   fst (start_downloads three_queued) = Started \<and>
   max_thread_count (threadpool (snd (start_downloads three_queued))) = 1 \<and>
   map status (queue_list (snd (start_downloads three_queued)))
     = [''running'', ''running'', ''running'']"
proof -
  have h: "in_sync three_queued" "queued_urls three_queued \<noteq> []"
    "yt_dlp_available three_queued"
    and v: "threads_spin three_queued = 1" "length (queue_list three_queued) = 3"
    by (simp_all add: three_queued_def add_links_def init_window_def new_item_def in_sync_def)
  from start_marks_every_item_running [OF h] h v show ?thesis
    by (simp add: numeral_3_eq_3)
qed

text \<open>
  Claim C1, as it is stated, fails: with three queued links and a worker limit of one,
  the queue shows three items \<open>running\<close> right after the start.
\<close>

theorem running_exceeds_worker_limit:
  "threads_spin three_queued = 1 \<and>
   max_thread_count (threadpool three_started) = 1 \<and>
   count_running three_started = 3 \<and>
   \<not> int (count_running three_started) \<le> threads_spin three_queued"
  by (simp add: three_started_def three_queued_def start_downloads_def submit_all_def
      submit_one_def set_item_status_def add_links_def init_window_def new_item_def
      count_running_def Let_def)

section \<open>Items in the queue after a slot has run\<close>

lemma find_set_progress_same:
  "find (\<lambda>it. url it = u) (set_progress_items u p ql) =
   map_option (\<lambda>it. it\<lparr>progress := p, item_text := TextProgress u p\<rparr>)
     (find (\<lambda>it. url it = u) ql)"
  by (induction ql) simp_all

lemma find_set_progress_other:
  "v \<noteq> u \<Longrightarrow> find (\<lambda>it. url it = v) (set_progress_items u p ql) = find (\<lambda>it. url it = v) ql"
  by (induction ql) simp_all

lemma set_progress_items_absent:
  "u \<notin> set (map url ql) \<Longrightarrow> set_progress_items u p ql = ql"
  by (induction ql) auto

lemma find_set_status_same:
  "find (\<lambda>it. url it = u) (set_status_items u st ql) =
   map_option (\<lambda>it. it\<lparr>status := st, item_text := TextStatus u st\<rparr>)
     (find (\<lambda>it. url it = u) ql)"
  by (induction ql) simp_all

lemma find_set_status_other:
  "v \<noteq> u \<Longrightarrow> find (\<lambda>it. url it = v) (set_status_items u st ql) = find (\<lambda>it. url it = v) ql"
  by (induction ql) simp_all

lemma find_present:
  "u \<in> set (map url ql) \<Longrightarrow> \<exists>it. find (\<lambda>it. url it = u) ql = Some it"
  by (induction ql) auto

lemma set_status_items_filepath: "map filepath (set_status_items u st ql) = map filepath ql"
  by (induction ql) simp_all

section \<open>Progress events\<close>

text \<open>
  Claim C4, as the code has it. \<open>_on_item_progress\<close> stores the incoming percent
  as it comes: when the url is in the queue, the first item that carries it has exactly
  that percent afterwards (nothing is clamped, neither to the last value nor to 100);
  when the url is not in the queue, nothing changes; items of other urls are untouched.
\<close>

theorem progress_is_overwritten:
  "(u \<in> set (map url (queue_list s)) \<longrightarrow>
      map_option progress (find_item u (on_item_progress u p s)) = Some p) \<and>
   (u \<notin> set (map url (queue_list s)) \<longrightarrow> on_item_progress u p s = s) \<and>
   (v \<noteq> u \<longrightarrow> find_item v (on_item_progress u p s) = find_item v s)"
proof -
  have a: "map_option progress (find_item u (on_item_progress u p s)) = Some p"
    if "u \<in> set (map url (queue_list s))"
    using find_present [OF that]
    by (auto simp: find_item_def on_item_progress_def find_set_progress_same)
  have b: "on_item_progress u p s = s" if "u \<notin> set (map url (queue_list s))"
    using set_progress_items_absent [OF that] by (simp add: on_item_progress_def)
  have c: "find_item v (on_item_progress u p s) = find_item v s" if "v \<noteq> u"
    using that by (simp add: find_item_def on_item_progress_def find_set_progress_other)
  from a b c show ?thesis by blast
qed

theorem progress_is_overwritten_witness:
  "''https://rutube.ru/video/a1/'' \<in> set (map url (queue_list three_queued)) \<and>
   map_option progress (find_item ''https://rutube.ru/video/a1/''
      (on_item_progress ''https://rutube.ru/video/a1/'' 42 three_queued)) = Some 42 \<and>
   ''https://rutube.ru/video/zz/'' \<notin> set (map url (queue_list three_queued)) \<and>
   on_item_progress ''https://rutube.ru/video/zz/'' 42 three_queued = three_queued \<and>
   find_item ''https://rutube.ru/video/b2/''
      (on_item_progress ''https://rutube.ru/video/a1/'' 42 three_queued)
     = find_item ''https://rutube.ru/video/b2/'' three_queued"
proof -
  have h: "''https://rutube.ru/video/a1/'' \<in> set (map url (queue_list three_queued))"
    "''https://rutube.ru/video/zz/'' \<notin> set (map url (queue_list three_queued))"
    by (simp_all add: three_queued_def add_links_def init_window_def new_item_def)
  from progress_is_overwritten [of "''https://rutube.ru/video/a1/''" three_queued 42
      "''https://rutube.ru/video/b2/''"]
    progress_is_overwritten [of "''https://rutube.ru/video/zz/''" three_queued 42
      "''https://rutube.ru/video/b2/''"] h
  show ?thesis by simp
qed

text \<open>
  Claim C4, as it is stated, fails: after the reports 50 and 30 for one url the stored
  percent is 30, below the last report, and a report of 150 is stored as 150.
\<close>

theorem progress_regresses:
  "map_option progress (find_item ''https://rutube.ru/video/a1/''
      (on_item_progress ''https://rutube.ru/video/a1/'' 50 three_started)) = Some 50 \<and>
   map_option progress (find_item ''https://rutube.ru/video/a1/''
      (on_item_progress ''https://rutube.ru/video/a1/'' 30
        (on_item_progress ''https://rutube.ru/video/a1/'' 50 three_started))) = Some 30 \<and>
   map_option progress (find_item ''https://rutube.ru/video/a1/''
      (on_item_progress ''https://rutube.ru/video/a1/'' 150 three_started)) = Some 150"
  by (simp add: three_started_def three_queued_def start_downloads_def submit_all_def
      submit_one_def set_item_status_def add_links_def init_window_def new_item_def
      find_item_def on_item_progress_def Let_def)

section \<open>The aggregate progress bar\<close>

text \<open>
  Claim C6, as the code has it. The aggregate progress bar advances by one, capped at
  its maximum (the number of queued urls when the batch started), on each
  \<open>finished\<close> event and on nothing else: a status event, whatever the status, and
  a progress event leave the bar as it is.
\<close>

theorem only_finished_advances_counter:
  "global_progress (on_item_status u st s) = global_progress s \<and>
   global_progress (on_item_progress u p s) = global_progress s \<and>
   global_progress (on_item_finished fs u fp s) =
     (global_progress s)\<lparr>pb_value :=
        min (pb_maximum (global_progress s)) (pb_value (global_progress s) + 1)\<rparr>"
  by (simp add: on_item_status_def set_item_status_def on_item_progress_def
      on_item_finished_def record_file_def Let_def)

theorem only_finished_advances_counter_witness:
  "pb_value (global_progress three_started) = 0 \<and>
   pb_value (global_progress
      (on_item_status ''https://rutube.ru/video/a1/'' ''done'' three_started)) = 0 \<and>
   pb_value (global_progress
      (on_item_finished {} ''https://rutube.ru/video/a1/'' ''/dl/a.mp4'' three_started)) = 1"
proof -
  have g: "global_progress three_started = \<lparr>pb_value = 0, pb_maximum = 3\<rparr>"
    by (simp add: three_started_def three_queued_def start_downloads_def submit_all_def
      submit_one_def set_item_status_def add_links_def init_window_def Let_def)
  from only_finished_advances_counter [of "''https://rutube.ru/video/a1/''" "''done''"
      three_started 0 "{}" "''/dl/a.mp4''"] g
  show ?thesis by simp
qed

text \<open>
  Claim C6, as it is stated, fails: an item of a started batch that ends with status
  \<open>error\<close> (or \<open>missing yt-dlp\<close>) leaves the bar at 0.
\<close>

theorem failed_item_not_counted:
  "map_option status (find_item ''https://rutube.ru/video/a1/''
      (on_item_status ''https://rutube.ru/video/a1/'' ''error'' three_started)) = Some ''error'' \<and>
   pb_value (global_progress three_started) = 0 \<and>
   pb_value (global_progress
      (on_item_status ''https://rutube.ru/video/a1/'' ''error'' three_started)) = 0 \<and>
   pb_value (global_progress
      (on_item_status ''https://rutube.ru/video/a1/'' ''missing yt-dlp'' three_started)) = 0"
  by (simp add: three_started_def three_queued_def start_downloads_def submit_all_def
      submit_one_def set_item_status_def add_links_def init_window_def new_item_def
      find_item_def on_item_status_def Let_def)

section \<open>Finished events\<close>

text \<open>
  Claim C7, as the code has it. On \<open>finished(url, path)\<close> a non-empty reported path
  that names an existing file is appended to the downloaded files; otherwise, for a
  non-empty path, the download directory joined with the basename of the reported path
  is appended if that names an existing file; otherwise nothing is appended. In every
  case the console is left as it is (no warning is written) and no item's
  \<open>filepath\<close> field is written.
\<close>

theorem finished_path_reconciled:
  "downloaded_files (on_item_finished fs u fp s) =
     (if fp \<noteq> [] \<and> os_path_isfile fs fp then downloaded_files s @ [fp]
      else if fp \<noteq> [] \<and> os_path_isfile fs (os_path_join (download_dir s) (os_path_basename fp))
        then downloaded_files s @ [os_path_join (download_dir s) (os_path_basename fp)]
      else downloaded_files s) \<and>
   console (on_item_finished fs u fp s) = console s \<and>
   map filepath (queue_list (on_item_finished fs u fp s)) = map filepath (queue_list s)"
  by (simp add: on_item_finished_def record_file_def set_item_status_def Let_def
      set_status_items_filepath)

theorem finished_path_reconciled_witness:
  "downloaded_files (on_item_finished {''/dl/a.mp4''} ''https://rutube.ru/video/a1/''
      ''/dl/a.mp4'' three_started) = [''/dl/a.mp4''] \<and>
   downloaded_files (on_item_finished {''/dl/a.mp4''} ''https://rutube.ru/video/a1/''
      ''/tmp/a.mp4'' three_started) = [''/dl/a.mp4''] \<and>
   downloaded_files (on_item_finished {''/dl/a.mp4''} ''https://rutube.ru/video/a1/''
      ''/tmp/b.mp4'' three_started) = [] \<and>
   map filepath (queue_list (on_item_finished {''/dl/a.mp4''} ''https://rutube.ru/video/a1/''
      ''/tmp/b.mp4'' three_started)) = [[], [], []]"
proof -
  have d: "downloaded_files three_started = []" "download_dir three_started = ''/dl''"
    "map filepath (queue_list three_started) = [[], [], []]"
    by (simp_all add: three_started_def three_queued_def start_downloads_def submit_all_def
      submit_one_def set_item_status_def add_links_def init_window_def new_item_def Let_def)
  from finished_path_reconciled [of "{''/dl/a.mp4''}" "''https://rutube.ru/video/a1/''"
      "''/dl/a.mp4''" three_started]
    finished_path_reconciled [of "{''/dl/a.mp4''}" "''https://rutube.ru/video/a1/''"
      "''/tmp/a.mp4''" three_started]
    finished_path_reconciled [of "{''/dl/a.mp4''}" "''https://rutube.ru/video/a1/''"
      "''/tmp/b.mp4''" three_started] d
  show ?thesis
    by (simp add: os_path_isfile_def os_path_join_def os_path_basename_def)
qed

text \<open>
  Claim C7, as it is stated, fails: when neither the reported path nor the path in the
  download directory names a file, nothing is appended and the console does not change.
\<close>

theorem unresolved_path_no_warning:
  "\<not> os_path_isfile {''/dl/a.mp4''} ''/tmp/b.mp4'' \<and>
   \<not> os_path_isfile {''/dl/a.mp4''}
       (os_path_join (download_dir three_started) (os_path_basename ''/tmp/b.mp4'')) \<and>
   downloaded_files (on_item_finished {''/dl/a.mp4''} ''https://rutube.ru/video/a1/''
      ''/tmp/b.mp4'' three_started) = downloaded_files three_started \<and>
   console (on_item_finished {''/dl/a.mp4''} ''https://rutube.ru/video/a1/''
      ''/tmp/b.mp4'' three_started) = console three_started"
  by (simp add: three_started_def three_queued_def start_downloads_def submit_all_def
      submit_one_def set_item_status_def add_links_def init_window_def new_item_def
      on_item_finished_def record_file_def Let_def
      os_path_isfile_def os_path_join_def os_path_basename_def)

section \<open>A worker whose fetch raises\<close>

lemma progress_hook_urls:
  "sg \<in> set (progress_hook pct u d) \<Longrightarrow> signal_url sg \<noteq> Some v \<or> v = u"
  by (cases d) (auto simp: progress_hook_def Let_def)

lemma on_callback_urls:
  "sg \<in> set (on_callback pct u cb) \<Longrightarrow> signal_url sg \<noteq> Some v \<or> v = u"
  using progress_hook_urls by (cases cb) (auto simp: on_callback_def)

lemma run_urls:
  assumes "sg \<in> set (fst (run ydl pct w fetch))" and "v \<noteq> w_url w"
  shows "signal_url sg \<noteq> Some v"
proof -
  obtain cbs fin where f: "fetch = (cbs, fin)" by (cases fetch)
  have cb: "signal_url x \<noteq> Some v"
    if "x \<in> set (concat (map (on_callback pct (w_url w)) cbs))" for x
    using that on_callback_urls [of x pct "w_url w" _ v] assms(2) by auto
  show ?thesis
  proof (cases ydl)
    case False
    with assms f show ?thesis by (auto simp: run_def run_try_def)
  next
    case True
    with assms f cb show ?thesis
      by (cases fin) (auto simp: run_def run_try_def)
  qed
qed

lemma handle_signal_other:
  "signal_url sg \<noteq> Some v \<Longrightarrow> find_item v (handle_signal fs sg s) = find_item v s"
  by (cases sg)
    (auto simp: handle_signal_def find_item_def on_item_progress_def on_item_status_def
      on_item_finished_def record_file_def set_item_status_def Let_def
      find_set_progress_other find_set_status_other)

lemma handle_signal_urls:
  "map url (queue_list (handle_signal fs sg s)) = map url (queue_list s)"
  by (cases sg)
    (auto simp: handle_signal_def on_item_progress_def on_item_status_def
      on_item_finished_def record_file_def set_item_status_def Let_def
      set_progress_items_urls set_status_items_urls)

lemma deliver_other:
  "\<forall>ev \<in> set evs. signal_url (snd ev) \<noteq> Some v \<Longrightarrow> find_item v (deliver evs s) = find_item v s"
  by (induction evs s rule: deliver.induct) (simp_all add: handle_signal_other)

lemma deliver_urls: "map url (queue_list (deliver evs s)) = map url (queue_list s)"
  by (induction evs s rule: deliver.induct) (simp_all add: handle_signal_urls)

lemma deliver_append: "deliver (xs @ ys) s = deliver ys (deliver xs s)"
  by (induction xs s rule: deliver.induct) simp_all

lemma run_never_raises: "snd (run ydl pct w fetch) = None"
  by (simp add: run_def split: prod.splits option.splits)

lemma run_on_exception:
  "raised fin = Some e \<Longrightarrow>
   \<exists>pre. fst (run True pct w (cbs, fin)) =
     pre @ [AppendConsole (LogErrorDownloading (w_url w) e), ItemStatus (w_url w) ''error'']"
  by (cases fin) (simp_all add: run_def run_try_def)

lemma filter_shuffle_left:
  assumes "zs \<in> shuffles xs ys" and "\<forall>y \<in> set ys. \<not> P y"
  shows "filter P zs = filter P xs"
proof -
  from assms(1) have "filter P zs \<in> filter P ` shuffles xs ys" by (rule imageI)
  also have "\<dots> = shuffles (filter P xs) (filter P ys)" by (rule filter_shuffles)
  also from assms(2) have "filter P ys = []" by (simp add: filter_empty_conv)
  finally show ?thesis by simp
qed

lemma handle_signal_pools:
  "threadpool (handle_signal fs sg s) = threadpool s \<and>
   detached_pools (handle_signal fs sg s) = detached_pools s \<and>
   queued_urls (handle_signal fs sg s) = queued_urls s \<and>
   running_count (handle_signal fs sg s) = running_count s"
  by (cases sg)
    (simp_all add: handle_signal_def on_item_progress_def on_item_status_def
      on_item_finished_def record_file_def set_item_status_def Let_def)

lemma deliver_pools:
  "threadpool (deliver evs s) = threadpool s \<and>
   detached_pools (deliver evs s) = detached_pools s \<and>
   queued_urls (deliver evs s) = queued_urls s \<and>
   running_count (deliver evs s) = running_count s"
  by (induction evs s rule: deliver.induct) (simp_all add: handle_signal_pools)

lemma handle_signal_console:
  "set (console s) \<subseteq> set (console (handle_signal fs sg s))"
  by (cases sg)
    (auto simp: handle_signal_def on_item_progress_def on_item_status_def
      on_item_finished_def record_file_def set_item_status_def Let_def)

lemma deliver_console_mono: "set (console s) \<subseteq> set (console (deliver evs s))"
proof (induction evs s rule: deliver.induct)
  case (1 s)
  then show ?case by simp
next
  case (2 fs sg rest s)
  from handle_signal_console [of s fs sg] "2.IH" show ?case by auto
qed

lemma deliver_console_line:
  "AppendConsole l \<in> set (map snd evs) \<Longrightarrow> l \<in> set (console (deliver evs s))"
proof (induction evs s rule: deliver.induct)
  case (1 s)
  then show ?case by simp
next
  case (2 fs sg rest s)
  show ?case
  proof (cases "sg = AppendConsole l")
    case True
    then have "l \<in> set (console (handle_signal fs sg s))"
      by (simp add: handle_signal_def)
    with deliver_console_mono [of "handle_signal fs sg s" rest] show ?thesis by auto
  next
    case False
    with "2.prems" have "AppendConsole l \<in> set (map snd rest)" by auto
    with "2.IH" show ?thesis by simp
  qed
qed

text \<open>The status of the item of a url is decided by the last signal about that url.\<close>

lemma deliver_last_status:
  assumes "filter (\<lambda>sg. signal_url sg = Some u) (map snd evs) = pre @ [ItemStatus u st]"
    and "u \<in> set (map url (queue_list s))"
  shows "map_option status (find_item u (deliver evs s)) = Some st"
  using assms
proof (induction evs arbitrary: pre rule: rev_induct)
  case Nil
  then show ?case by simp
next
  case (snoc ev evs)
  obtain fs sg where ev: "ev = (fs, sg)" by (cases ev)
  have d: "deliver (evs @ [ev]) s = handle_signal fs sg (deliver evs s)"
    by (simp add: deliver_append ev)
  have present: "u \<in> set (map url (queue_list (deliver evs s)))"
    using snoc.prems(2) by (simp only: deliver_urls)
  show ?case
  proof (cases "signal_url sg = Some u")
    case True
    with snoc.prems(1) ev have "sg = ItemStatus u st" by simp
    with find_present [OF present] show ?thesis
      by (auto simp: d handle_signal_def on_item_status_def set_item_status_def
          find_item_def find_set_status_same)
  next
    case False
    with snoc.prems(1) ev
    have "filter (\<lambda>sg. signal_url sg = Some u) (map snd evs) = pre @ [ItemStatus u st]"
      by simp
    from snoc.IH [OF this snoc.prems(2)] handle_signal_other [OF False, of fs "deliver evs s"]
    show ?thesis by (simp add: d)
  qed
qed

lemma handle_signal_cong:
  "find_item v s = find_item v s' \<Longrightarrow>
   find_item v (handle_signal fs sg s) = find_item v (handle_signal fs sg s')"
proof (cases "signal_url sg = Some v")
  case False
  assume "find_item v s = find_item v s'"
  with handle_signal_other [OF False] show ?thesis by simp
next
  case True
  assume eq: "find_item v s = find_item v s'"
  then have eq': "find (\<lambda>it. url it = v) (queue_list s) = find (\<lambda>it. url it = v) (queue_list s')"
    by (simp add: find_item_def)
  from True show ?thesis
    by (cases sg)
      (simp_all add: handle_signal_def find_item_def on_item_progress_def on_item_status_def
        on_item_finished_def record_file_def set_item_status_def Let_def
        find_set_progress_same find_set_status_same eq')
qed

lemma deliver_without:
  "v \<noteq> u \<Longrightarrow> find_item v s = find_item v s' \<Longrightarrow>
   find_item v (deliver evs s) =
   find_item v (deliver (filter (\<lambda>ev. signal_url (snd ev) \<noteq> Some u) evs) s')"
proof (induction evs arbitrary: s s')
  case Nil
  then show ?case by simp
next
  case (Cons ev evs)
  obtain fs sg where ev: "ev = (fs, sg)" by (cases ev)
  show ?case
  proof (cases "signal_url sg = Some u")
    case True
    with Cons.prems(1) have "signal_url sg \<noteq> Some v" by auto
    from handle_signal_other [OF this, of fs s] Cons.prems(2)
    have "find_item v (handle_signal fs sg s) = find_item v s'" by simp
    from Cons.IH [OF Cons.prems(1) this] True show ?thesis by (simp add: ev)
  next
    case False
    from handle_signal_cong [OF Cons.prems(2)]
    have "find_item v (handle_signal fs sg s) = find_item v (handle_signal fs sg s')" .
    from Cons.IH [OF Cons.prems(1) this] False show ?thesis by (simp add: ev)
  qed
qed

lemma run_filter_own:
  assumes "raised fin = Some e"
  shows "\<exists>pre. filter (\<lambda>sg. signal_url sg = Some (w_url w)) (fst (run True pct w (cbs, fin)))
           = pre @ [ItemStatus (w_url w) ''error'']"
proof -
  from run_on_exception [OF assms, of pct w cbs] obtain pre where
    "fst (run True pct w (cbs, fin)) =
       pre @ [AppendConsole (LogErrorDownloading (w_url w) e), ItemStatus (w_url w) ''error'']"
    by (elim exE)
  then have "filter (\<lambda>sg. signal_url sg = Some (w_url w)) (fst (run True pct w (cbs, fin)))
      = filter (\<lambda>sg. signal_url sg = Some (w_url w)) pre @ [ItemStatus (w_url w) ''error'']"
    by simp
  then show ?thesis by (intro exI)
qed

text \<open>
  Claim C2. Let the fetch call of a worker end with an exception, after any callbacks,
  and let the window handle the signals of that worker, in the order of their emission,
  interleaved in any way with any signals that are not about the url of that worker
  (those of its siblings), the url being in the queue. Then no exception leaves
  \<open>run\<close>; the last two signals of the worker are a console line for the error and
  the status \<open>error\<close> for its url; after delivery that line is in the console and
  the item has status \<open>error\<close>, so it is not left \<open>running\<close>. The siblings
  are not touched: the item of every other url ends as it would had the window received
  no signal about the failed url, no pool has changed, so every submitted worker is still
  where it was, and the queue holds the same urls.
\<close>

theorem fetch_exception_contained:
  assumes "raised fin = Some e"
    and "map snd evs \<in> shuffles (fst (run True pct w (cbs, fin))) others"
    and "\<forall>sg \<in> set others. signal_url sg \<noteq> Some (w_url w)"
    and "w_url w \<in> set (map url (queue_list s))"
  shows "snd (run True pct w (cbs, fin)) = None \<and>
         (\<exists>pre. fst (run True pct w (cbs, fin)) =
            pre @ [AppendConsole (LogErrorDownloading (w_url w) e),
                   ItemStatus (w_url w) ''error'']) \<and>
         LogErrorDownloading (w_url w) e \<in> set (console (deliver evs s)) \<and>
         map_option status (find_item (w_url w) (deliver evs s)) = Some ''error'' \<and>
         (\<forall>v. v \<noteq> w_url w \<longrightarrow>
            find_item v (deliver evs s) =
            find_item v (deliver (filter (\<lambda>ev. signal_url (snd ev) \<noteq> Some (w_url w)) evs) s)) \<and>
         threadpool (deliver evs s) = threadpool s \<and>
         detached_pools (deliver evs s) = detached_pools s \<and>
         map url (queue_list (deliver evs s)) = map url (queue_list s)"
proof -
  let ?u = "w_url w"
  let ?sigs = "fst (run True pct w (cbs, fin))"
  from run_on_exception [OF assms(1), of pct w cbs] obtain pre where
    sigs: "?sigs = pre @ [AppendConsole (LogErrorDownloading ?u e), ItemStatus ?u ''error'']"
    by (elim exE)
  have "AppendConsole (LogErrorDownloading ?u e) \<in> set ?sigs"
    by (simp add: sigs)
  with set_shuffles [OF assms(2)]
  have "AppendConsole (LogErrorDownloading ?u e) \<in> set (map snd evs)" by blast
  then have con: "LogErrorDownloading ?u e \<in> set (console (deliver evs s))"
    by (rule deliver_console_line)
  from run_filter_own [OF assms(1), of w pct cbs] obtain pre' where
    own: "filter (\<lambda>sg. signal_url sg = Some ?u) ?sigs = pre' @ [ItemStatus ?u ''error'']"
    by (elim exE)
  have "filter (\<lambda>sg. signal_url sg = Some ?u) (map snd evs)
          = filter (\<lambda>sg. signal_url sg = Some ?u) ?sigs"
    using assms(2) assms(3) by (rule filter_shuffle_left)
  with own have "filter (\<lambda>sg. signal_url sg = Some ?u) (map snd evs)
          = pre' @ [ItemStatus ?u ''error'']" by simp
  then have st: "map_option status (find_item ?u (deliver evs s)) = Some ''error''"
    using assms(4) by (rule deliver_last_status)
  have others: "find_item v (deliver evs s) =
      find_item v (deliver (filter (\<lambda>ev. signal_url (snd ev) \<noteq> Some ?u) evs) s)"
    if "v \<noteq> ?u" for v
    using that by (rule deliver_without) simp
  from run_never_raises [of True pct w "(cbs, fin)"] sigs con st others
    deliver_pools [of evs s] deliver_urls [of evs s]
  show ?thesis by blast
qed

theorem fetch_exception_contained_witness:
  "raised (Raises (Exn ''HTTP Error 403'')) = Some (Exn ''HTTP Error 403'') \<and>
   w_url (make_worker ''https://rutube.ru/video/b2/'' ''/dl'')
     \<in> set (map url (queue_list three_started)) \<and>
   run True (\<lambda>d t. d * 100 div t) (make_worker ''https://rutube.ru/video/b2/'' ''/dl'')
     ([CallHook (Downloading (Some 200) None (Some 50) ''12'')], Raises (Exn ''HTTP Error 403''))
     = ([AppendConsole (LogStartingDownload ''https://rutube.ru/video/b2/''),
         ItemProgress ''https://rutube.ru/video/b2/'' 25,
         AppendConsole (LogDownloading ''https://rutube.ru/video/b2/'' 25 ''12''),
         AppendConsole (LogErrorDownloading ''https://rutube.ru/video/b2/'' (Exn ''HTTP Error 403'')),
         ItemStatus ''https://rutube.ru/video/b2/'' ''error''], None) \<and>
   map_option status (find_item ''https://rutube.ru/video/b2/''
     (deliver (map (Pair {})
        (splice
          (fst (run True (\<lambda>d t. d * 100 div t) (make_worker ''https://rutube.ru/video/b2/'' ''/dl'')
            ([CallHook (Downloading (Some 200) None (Some 50) ''12'')],
             Raises (Exn ''HTTP Error 403''))))
          [ItemProgress ''https://rutube.ru/video/c3/'' 100,
           ItemStatus ''https://rutube.ru/video/c3/'' ''done'']))
        three_started)) = Some ''error'' \<and>
   map_option status (find_item ''https://rutube.ru/video/c3/''
     (deliver (map (Pair {})
        (splice
          (fst (run True (\<lambda>d t. d * 100 div t) (make_worker ''https://rutube.ru/video/b2/'' ''/dl'')
            ([CallHook (Downloading (Some 200) None (Some 50) ''12'')],
             Raises (Exn ''HTTP Error 403''))))
          [ItemProgress ''https://rutube.ru/video/c3/'' 100,
           ItemStatus ''https://rutube.ru/video/c3/'' ''done'']))
        three_started)) = Some ''done'' \<and>
   length (submitted (threadpool
     (deliver (map (Pair {})
        (splice
          (fst (run True (\<lambda>d t. d * 100 div t) (make_worker ''https://rutube.ru/video/b2/'' ''/dl'')
            ([CallHook (Downloading (Some 200) None (Some 50) ''12'')],
             Raises (Exn ''HTTP Error 403''))))
          [ItemProgress ''https://rutube.ru/video/c3/'' 100,
           ItemStatus ''https://rutube.ru/video/c3/'' ''done'']))
        three_started))) = 3"
proof -
  let ?w = "make_worker ''https://rutube.ru/video/b2/'' ''/dl''"
  let ?cbs = "[CallHook (Downloading (Some 200) None (Some 50) ''12'')]"
  let ?sigs = "fst (run True (\<lambda>d t. d * 100 div t) ?w (?cbs, Raises (Exn ''HTTP Error 403'')))"
  let ?others = "[ItemProgress ''https://rutube.ru/video/c3/'' 100,
                  ItemStatus ''https://rutube.ru/video/c3/'' ''done'']"
  let ?evs = "map (Pair {}) (splice ?sigs ?others)"
  have q: "queue_list three_started =
     map (\<lambda>u. \<lparr>item_text = TextStatus u ''running'', url = u, status = ''running'',
                progress = 0, filepath = []\<rparr>)
       [''https://rutube.ru/video/a1/'', ''https://rutube.ru/video/b2/'',
        ''https://rutube.ru/video/c3/'']"
    and p: "length (submitted (threadpool three_started)) = 3"
    by (simp_all add: three_started_def three_queued_def start_downloads_def submit_all_def
      submit_one_def set_item_status_def add_links_def init_window_def new_item_def Let_def)
  have h0: "raised (Raises (Exn ''HTTP Error 403'')) = Some (Exn ''HTTP Error 403'')"
    by simp
  have m: "map snd (map (Pair {}) zs) = zs" for zs :: "signal list"
    by (simp add: comp_def)
  have h1: "map snd ?evs \<in> shuffles ?sigs ?others"
    unfolding m by (rule splice_in_shuffles)
  have h2: "\<forall>sg \<in> set ?others. signal_url sg \<noteq> Some (w_url ?w)"
    by (simp add: make_worker_def)
  have h3: "w_url ?w \<in> set (map url (queue_list three_started))"
    by (simp add: q make_worker_def)
  have r: "run True (\<lambda>d t. d * 100 div t) ?w (?cbs, Raises (Exn ''HTTP Error 403''))
     = ([AppendConsole (LogStartingDownload ''https://rutube.ru/video/b2/''),
         ItemProgress ''https://rutube.ru/video/b2/'' 25,
         AppendConsole (LogDownloading ''https://rutube.ru/video/b2/'' 25 ''12''),
         AppendConsole (LogErrorDownloading ''https://rutube.ru/video/b2/'' (Exn ''HTTP Error 403'')),
         ItemStatus ''https://rutube.ru/video/b2/'' ''error''], None)"
    by (simp add: run_def run_try_def on_callback_def progress_hook_def make_worker_def Let_def)
  note t = fetch_exception_contained [OF h0 h1 h2 h3]
  from t have st: "map_option status (find_item (w_url ?w) (deliver ?evs three_started))
      = Some ''error''"
    by (elim conjE)
  from t have pool: "threadpool (deliver ?evs three_started) = threadpool three_started"
    by (elim conjE)
  have u: "w_url ?w = ''https://rutube.ru/video/b2/''" by (simp add: make_worker_def)
  have c3: "map_option status (find_item ''https://rutube.ru/video/c3/''
      (deliver ?evs three_started)) = Some ''done''"
    unfolding r
    by (simp add: find_item_def q handle_signal_def on_item_progress_def on_item_status_def
        set_item_status_def)
  from h0 h3 r st c3 p show ?thesis
    unfolding pool u by simp
qed

section \<open>Stopping a batch\<close>

text \<open>
  Claim C3, on the code: three links are queued, the worker limit is one, the batch is
  started and then stopped with \<open>Yes\<close>. The stop binds \<open>self.threadpool\<close>
  to a new, empty pool; the pool that was given the three workers still holds all three
  of them, none is taken back, and the three items keep the status \<open>running\<close>.
\<close>

theorem stop_keeps_submitted_workers:
  "stop_downloads Yes three_started =
     three_started
       \<lparr>detached_pools :=
          [\<lparr>max_thread_count = 1,
            submitted = [make_worker ''https://rutube.ru/video/a1/'' ''/dl'',
                         make_worker ''https://rutube.ru/video/b2/'' ''/dl'',
                         make_worker ''https://rutube.ru/video/c3/'' ''/dl'']\<rparr>],
        threadpool := \<lparr>max_thread_count = 1, submitted = []\<rparr>,
        console := console three_started @ [LogStopped],
        start_btn_enabled := True, stop_btn_enabled := False, install_btn_enabled := True\<rparr> \<and>
   map status (queue_list (stop_downloads Yes three_started))
     = [''running'', ''running'', ''running'']"
  by (simp add: stop_downloads_def three_started_def three_queued_def start_downloads_def
      submit_all_def submit_one_def set_item_status_def add_links_def init_window_def
      new_item_def Let_def)

end
